theory Spec2Isabelle
  imports Main "HOL-Library.Word"
begin

unbundle bit_operations_syntax

section \<open>Common types\<close>

text \<open>
  \<open>unsigned char\<close> is an 8-bit word and \<open>size_t\<close> a 64-bit word.  Both classes throw
  \<open>std::runtime_error\<close> with a message built by one of the two \<open>make_error_message\<close>
  overloads; the error value keeps the numbers that the message prints:
  \<^item> \<open>OutOfBounds requested remaining\<close> for
    "Tried to get/skip \<open>requested\<close> byte(s), but there's only \<open>remaining\<close> byte(s) remaining";
  \<^item> \<open>SizeMismatch expected received\<close> for
    "Tried to push \<open>expected\<close> bits value, but the input contains \<open>received\<close> bits".
  \<open>Undefined_behaviour\<close> is not an exception of the program: it marks an access to a
  \<open>std::vector\<close> outside its bounds, which C++ leaves undefined.
\<close>

type_synonym byte = "8 word"
type_synonym size_t = "64 word"

datatype error =
    OutOfBounds nat nat
  | SizeMismatch nat nat
  | Undefined_behaviour

section \<open>Deserializer (deserializer.h, deserializer.cpp)\<close>

record Deserializer =
  buffer :: "byte list"
  cursor :: size_t
  buffer_size :: size_t
  remaining :: size_t

text \<open>
  A member function that may throw returns the pair of its outcome (\<open>Inl\<close> the exception,
  \<open>Inr\<close> the returned value) and the object as the call leaves it, since the object
  outlives the exception.
\<close>

text \<open>The constructor: \<open>buffer(buffer), buffer_size(buffer.size()), remaining(buffer.size())\<close>,
  with the default member initializer \<open>cursor = 0\<close>.\<close>

definition Deserializer_ctor :: "byte list \<Rightarrow> Deserializer" where
  "Deserializer_ctor buf =
     \<lparr>buffer = buf, cursor = 0, buffer_size = of_nat (length buf),
      remaining = of_nat (length buf)\<rparr>"

definition make_error_message :: "size_t \<Rightarrow> size_t \<Rightarrow> error" where
  "make_error_message requested rem = OutOfBounds (unat requested) (unat rem)"

definition assert_is_available :: "size_t \<Rightarrow> Deserializer \<Rightarrow> error + unit" where
  "assert_is_available amount_of_bytes s =
     (if remaining s < amount_of_bytes
      then Inl (make_error_message amount_of_bytes (remaining s))
      else Inr ())"

definition update_remaining :: "Deserializer \<Rightarrow> Deserializer" where
  "update_remaining s =
     (if cursor s \<ge> buffer_size s \<or> cursor s < 0
      then s\<lparr>remaining := 0\<rparr>
      else s\<lparr>remaining := buffer_size s - cursor s\<rparr>)"

text \<open>
  The loop of \<open>get_big_endian\<close>:
  \<open>for (int i = (int)amount_of_bytes - 1; i >= 0; i--) value |= (unsigned long long)buffer[cursor++] << 8 * i\<close>.
  The first argument is \<open>i + 1\<close>, so that \<open>Suc i\<close> runs the body for \<open>i\<close>.
\<close>

fun get_big_endian_loop :: "nat \<Rightarrow> 64 word \<Rightarrow> Deserializer \<Rightarrow> (error + 64 word) \<times> Deserializer" where
  "get_big_endian_loop 0 v s = (Inr v, s)"
| "get_big_endian_loop (Suc i) v s =
     (if unat (cursor s) < length (buffer s)
      then get_big_endian_loop i
             (v OR push_bit (8 * i) (ucast (buffer s ! unat (cursor s))))
             (s\<lparr>cursor := cursor s + 1\<rparr>)
      else (Inl Undefined_behaviour, s))"

text \<open>\<open>get_big_endian\<close> is private and called with 1, 2, 4 and 8 only, where the cast
  \<open>(int)amount_of_bytes\<close> keeps the value.\<close>

definition get_big_endian :: "size_t \<Rightarrow> Deserializer \<Rightarrow> (error + 64 word) \<times> Deserializer" where
  "get_big_endian amount_of_bytes s =
     (case assert_is_available amount_of_bytes s of
        Inl e \<Rightarrow> (Inl e, s)
      | Inr _ \<Rightarrow>
          (case get_big_endian_loop (unat amount_of_bytes) 0 s of
             (Inl e, s') \<Rightarrow> (Inl e, s')
           | (Inr v, s') \<Rightarrow> (Inr v, update_remaining s')))"

text \<open>The loop of \<open>get_little_endian\<close>:
  \<open>for (int i = 0; i < amount_of_bytes; i++) value |= (unsigned long long)buffer[cursor++] << 8 * i\<close>.\<close>

function get_little_endian_loop ::
  "nat \<Rightarrow> nat \<Rightarrow> 64 word \<Rightarrow> Deserializer \<Rightarrow> (error + 64 word) \<times> Deserializer" where
  "get_little_endian_loop i n v s =
     (if i < n
      then (if unat (cursor s) < length (buffer s)
            then get_little_endian_loop (i + 1) n
                   (v OR push_bit (8 * i) (ucast (buffer s ! unat (cursor s))))
                   (s\<lparr>cursor := cursor s + 1\<rparr>)
            else (Inl Undefined_behaviour, s))
      else (Inr v, s))"
  by pat_completeness auto
termination
  by (relation "measure (\<lambda>(i, n, v, s). n - i)") auto

declare get_little_endian_loop.simps [simp del]

definition get_little_endian :: "size_t \<Rightarrow> Deserializer \<Rightarrow> (error + 64 word) \<times> Deserializer" where
  "get_little_endian amount_of_bytes s =
     (case assert_is_available amount_of_bytes s of
        Inl e \<Rightarrow> (Inl e, s)
      | Inr _ \<Rightarrow>
          (case get_little_endian_loop 0 (unat amount_of_bytes) 0 s of
             (Inl e, s') \<Rightarrow> (Inl e, s')
           | (Inr v, s') \<Rightarrow> (Inr v, update_remaining s')))"

text \<open>The public fixed-width reads cast the 64-bit result to their return type.\<close>

definition cast_result ::
  "(64 word \<Rightarrow> 'a) \<Rightarrow> (error + 64 word) \<times> Deserializer \<Rightarrow> (error + 'a) \<times> Deserializer" where
  "cast_result f r = (case r of (Inl e, s') \<Rightarrow> (Inl e, s') | (Inr v, s') \<Rightarrow> (Inr (f v), s'))"

definition get_byte :: "Deserializer \<Rightarrow> (error + 8 word) \<times> Deserializer" where
  "get_byte s = cast_result ucast (get_big_endian 1 s)"

definition get_16_big_endian :: "Deserializer \<Rightarrow> (error + 16 word) \<times> Deserializer" where
  "get_16_big_endian s = cast_result ucast (get_big_endian 2 s)"

definition get_32_big_endian :: "Deserializer \<Rightarrow> (error + 32 word) \<times> Deserializer" where
  "get_32_big_endian s = cast_result ucast (get_big_endian 4 s)"

definition get_64_big_endian :: "Deserializer \<Rightarrow> (error + 64 word) \<times> Deserializer" where
  "get_64_big_endian s = get_big_endian 8 s"

definition get_16_little_endian :: "Deserializer \<Rightarrow> (error + 16 word) \<times> Deserializer" where
  "get_16_little_endian s = cast_result ucast (get_little_endian 2 s)"

definition get_32_little_endian :: "Deserializer \<Rightarrow> (error + 32 word) \<times> Deserializer" where
  "get_32_little_endian s = cast_result ucast (get_little_endian 4 s)"

definition get_64_little_endian :: "Deserializer \<Rightarrow> (error + 64 word) \<times> Deserializer" where
  "get_64_little_endian s = get_little_endian 8 s"

text \<open>
  \<open>get_buffer(size)\<close> (the parameter is \<open>sz\<close> here): the iterators
  \<open>begin = buffer.begin() + cursor\<close> and \<open>end = begin + size\<close> must stay inside the
  vector, otherwise the behaviour is undefined.
\<close>

definition get_buffer :: "size_t \<Rightarrow> Deserializer \<Rightarrow> (error + byte list) \<times> Deserializer" where
  "get_buffer sz s =
     (case assert_is_available sz s of
        Inl e \<Rightarrow> (Inl e, s)
      | Inr _ \<Rightarrow>
          (if unat (cursor s) + unat sz \<le> length (buffer s)
           then (Inr (take (unat sz) (drop (unat (cursor s)) (buffer s))),
                 update_remaining (s\<lparr>cursor := cursor s + sz\<rparr>))
           else (Inl Undefined_behaviour, s)))"

definition get_cursor :: "Deserializer \<Rightarrow> size_t" where
  "get_cursor s = cursor s"

definition get_remaining :: "Deserializer \<Rightarrow> size_t" where
  "get_remaining s = remaining s"

definition get_buffer_size :: "Deserializer \<Rightarrow> size_t" where
  "get_buffer_size s = buffer_size s"

definition skip :: "size_t \<Rightarrow> Deserializer \<Rightarrow> (error + unit) \<times> Deserializer" where
  "skip amount_of_bytes s =
     (case assert_is_available amount_of_bytes s of
        Inl e \<Rightarrow> (Inl e, s)
      | Inr _ \<Rightarrow> (Inr (), update_remaining (s\<lparr>cursor := cursor s + amount_of_bytes\<rparr>)))"

definition reset_cursor :: "Deserializer \<Rightarrow> Deserializer" where
  "reset_cursor s = update_remaining (s\<lparr>cursor := 0\<rparr>)"

definition set_cursor :: "size_t \<Rightarrow> Deserializer \<Rightarrow> (error + unit) \<times> Deserializer" where
  "set_cursor position s = skip position (reset_cursor s)"

text \<open>
  The operations of the public interface that can change the object, and the object each
  of them leaves behind, whether it returned or threw.
\<close>

datatype reader_op =
    Get_byte
  | Get_buffer size_t
  | Get_16_big_endian
  | Get_32_big_endian
  | Get_64_big_endian
  | Get_16_little_endian
  | Get_32_little_endian
  | Get_64_little_endian
  | Skip size_t
  | Reset_cursor
  | Set_cursor size_t

fun reader_step :: "reader_op \<Rightarrow> Deserializer \<Rightarrow> Deserializer" where
  "reader_step Get_byte s = snd (get_byte s)"
| "reader_step (Get_buffer n) s = snd (get_buffer n s)"
| "reader_step Get_16_big_endian s = snd (get_16_big_endian s)"
| "reader_step Get_32_big_endian s = snd (get_32_big_endian s)"
| "reader_step Get_64_big_endian s = snd (get_64_big_endian s)"
| "reader_step Get_16_little_endian s = snd (get_16_little_endian s)"
| "reader_step Get_32_little_endian s = snd (get_32_little_endian s)"
| "reader_step Get_64_little_endian s = snd (get_64_little_endian s)"
| "reader_step (Skip n) s = snd (skip n s)"
| "reader_step Reset_cursor s = reset_cursor s"
| "reader_step (Set_cursor p) s = snd (set_cursor p s)"

fun reader_run :: "reader_op list \<Rightarrow> Deserializer \<Rightarrow> Deserializer" where
  "reader_run [] s = s"
| "reader_run (x # xs) s = reader_run xs (reader_step x s)"

text \<open>
  The invariant of the reader: the recorded size does not exceed the vector, the cursor is
  between 0 and the size, and \<open>remaining\<close> is the distance from the cursor to the end.
\<close>

definition Deserializer_inv :: "Deserializer \<Rightarrow> bool" where
  "Deserializer_inv s \<longleftrightarrow>
     unat (buffer_size s) \<le> length (buffer s) \<and>
     0 \<le> cursor s \<and> cursor s \<le> buffer_size s \<and>
     remaining s = buffer_size s - cursor s"

section \<open>Serializer (serializer.h)\<close>

text \<open>
  The pushes are templates over the type \<open>T\<close> of the value.  A value of an integer type is
  its storage size together with its bit pattern (two's complement for the signed types):
  \<open>Int8\<close> for the one-byte types, \<open>Int16\<close>, \<open>Int32\<close> and \<open>Int64\<close> for the types of two, four
  and eight bytes, the sizes of the integer types that the checked pushes name.  The literal
  \<open>0x00000000\<close> is an \<open>int\<close>, \<open>Int32 0\<close>.
\<close>

datatype numeric = Int8 "8 word" | Int16 "16 word" | Int32 "32 word" | Int64 "64 word"

fun sizeof :: "numeric \<Rightarrow> nat" where
  "sizeof (Int8 _) = 1"
| "sizeof (Int16 _) = 2"
| "sizeof (Int32 _) = 4"
| "sizeof (Int64 _) = 8"

text \<open>
  \<open>(value >> (i * 8)) & 0xff\<close>, converted to \<open>unsigned char\<close>.  The loops call it with
  \<open>i < sizeof(T)\<close> only, where the shift of a signed value and of an unsigned one give the
  same low byte.
\<close>

fun shifted_byte :: "numeric \<Rightarrow> nat \<Rightarrow> byte" where
  "shifted_byte (Int8 v) i = ucast (drop_bit (i * 8) v AND 0xff)"
| "shifted_byte (Int16 v) i = ucast (drop_bit (i * 8) v AND 0xff)"
| "shifted_byte (Int32 v) i = ucast (drop_bit (i * 8) v AND 0xff)"
| "shifted_byte (Int64 v) i = ucast (drop_bit (i * 8) v AND 0xff)"

datatype Endianness = BIG | LITTLE

text \<open>
  The \<open>index\<close> of a deferred size is a position in the vector, taken from
  \<open>buffer.size()\<close> and only ever incremented inside the vector: a \<open>nat\<close>, as list
  positions are.  The local \<open>size_t buffer_size\<close> of \<open>insert_buffer_sizes\<close>, which is
  shifted and masked, is a 64-bit word.
\<close>

record Deferred_Buffer_Size =
  index :: nat
  number_of_bytes :: "8 word"
  endianness :: Endianness

text \<open>
  The member \<open>buffer\<close> of the Serializer is \<open>ser_buffer\<close> here, and its member functions
  \<open>get_buffer\<close> and \<open>get_buffer_size\<close> are \<open>ser_get_buffer\<close> and \<open>ser_get_buffer_size\<close>,
  since the Deserializer has members of the same names.
\<close>

record Serializer =
  ser_buffer :: "byte list"
  deferred_sizes :: "Deferred_Buffer_Size list"

text \<open>\<open>Serializer()\<close> and \<open>Serializer(size, value)\<close>; \<open>reserve\<close> does not change the contents.\<close>

definition Serializer_ctor :: Serializer where
  "Serializer_ctor = \<lparr>ser_buffer = [], deferred_sizes = []\<rparr>"

definition Serializer_ctor_sized :: "size_t \<Rightarrow> byte \<Rightarrow> Serializer" where
  "Serializer_ctor_sized sz v = \<lparr>ser_buffer = replicate (unat sz) v, deferred_sizes = []\<rparr>"

text \<open>Either constructor: \<open>None\<close> for \<open>Serializer()\<close>, \<open>Some (size, value)\<close> for
  \<open>Serializer(size, value)\<close>.\<close>

definition Serializer_new :: "(size_t \<times> byte) option \<Rightarrow> Serializer" where
  "Serializer_new c =
     (case c of None \<Rightarrow> Serializer_ctor | Some (sz, v) \<Rightarrow> Serializer_ctor_sized sz v)"

text \<open>The second overload, \<open>make_error_message(unsigned char expected, unsigned char received)\<close>,
  prints \<open>(int)expected\<close> and \<open>(int)received * 8\<close>.\<close>

definition make_error_message_bits :: "8 word \<Rightarrow> 8 word \<Rightarrow> error" where
  "make_error_message_bits expected received = SizeMismatch (unat expected) (unat received * 8)"

definition check_size :: "numeric \<Rightarrow> 8 word \<Rightarrow> error + unit" where
  "check_size v amount_of_bytes =
     (if sizeof v \<noteq> unat amount_of_bytes
      then Inl (make_error_message_bits (amount_of_bytes * 8) (of_nat (sizeof v)))
      else Inr ())"

text \<open>\<open>for (int i = 0; i < sizeof(T); i++) buffer.push_back((value >> (i * 8)) & 0xff)\<close>\<close>

function push_little_endian_loop :: "nat \<Rightarrow> numeric \<Rightarrow> byte list \<Rightarrow> byte list" where
  "push_little_endian_loop i v buf =
     (if i < sizeof v
      then push_little_endian_loop (i + 1) v (buf @ [shifted_byte v i])
      else buf)"
  by pat_completeness auto
termination
  by (relation "measure (\<lambda>(i, v, buf). sizeof v - i)") auto

declare push_little_endian_loop.simps [simp del]

definition push_little_endian :: "numeric \<Rightarrow> Serializer \<Rightarrow> Serializer" where
  "push_little_endian v s = s\<lparr>ser_buffer := push_little_endian_loop 0 v (ser_buffer s)\<rparr>"

text \<open>\<open>for (int i = sizeof(T) - 1; i >= 0; i--) buffer.push_back((value >> (i * 8)) & 0xff)\<close>;
  the first argument of the loop is \<open>i + 1\<close>.\<close>

fun push_big_endian_loop :: "nat \<Rightarrow> numeric \<Rightarrow> byte list \<Rightarrow> byte list" where
  "push_big_endian_loop 0 v buf = buf"
| "push_big_endian_loop (Suc i) v buf = push_big_endian_loop i v (buf @ [shifted_byte v i])"

definition push_big_endian :: "numeric \<Rightarrow> Serializer \<Rightarrow> Serializer" where
  "push_big_endian v s = s\<lparr>ser_buffer := push_big_endian_loop (sizeof v) v (ser_buffer s)\<rparr>"

text \<open>The checked pushes throw before they touch the buffer, so the result is either the
  exception or the new object.\<close>

definition push_16_big_endian :: "numeric \<Rightarrow> Serializer \<Rightarrow> error + Serializer" where
  "push_16_big_endian v s =
     (case check_size v 2 of Inl e \<Rightarrow> Inl e | Inr _ \<Rightarrow> Inr (push_big_endian v s))"

definition push_32_big_endian :: "numeric \<Rightarrow> Serializer \<Rightarrow> error + Serializer" where
  "push_32_big_endian v s =
     (case check_size v 4 of Inl e \<Rightarrow> Inl e | Inr _ \<Rightarrow> Inr (push_big_endian v s))"

definition push_64_big_endian :: "numeric \<Rightarrow> Serializer \<Rightarrow> error + Serializer" where
  "push_64_big_endian v s =
     (case check_size v 8 of Inl e \<Rightarrow> Inl e | Inr _ \<Rightarrow> Inr (push_big_endian v s))"

definition push_16_little_endian :: "numeric \<Rightarrow> Serializer \<Rightarrow> error + Serializer" where
  "push_16_little_endian v s =
     (case check_size v 2 of Inl e \<Rightarrow> Inl e | Inr _ \<Rightarrow> Inr (push_little_endian v s))"

definition push_32_little_endian :: "numeric \<Rightarrow> Serializer \<Rightarrow> error + Serializer" where
  "push_32_little_endian v s =
     (case check_size v 4 of Inl e \<Rightarrow> Inl e | Inr _ \<Rightarrow> Inr (push_little_endian v s))"

definition push_64_little_endian :: "numeric \<Rightarrow> Serializer \<Rightarrow> error + Serializer" where
  "push_64_little_endian v s =
     (case check_size v 8 of Inl e \<Rightarrow> Inl e | Inr _ \<Rightarrow> Inr (push_little_endian v s))"

definition push_buffer :: "byte list \<Rightarrow> Serializer \<Rightarrow> Serializer" where
  "push_buffer vs s = s\<lparr>ser_buffer := ser_buffer s @ vs\<rparr>"

text \<open>\<open>push_object(object)\<close> pushes \<open>object.serialize()\<close>; the argument here is that result.\<close>

definition push_object :: "byte list \<Rightarrow> Serializer \<Rightarrow> Serializer" where
  "push_object serialized s = push_buffer serialized s"

definition push_byte :: "numeric \<Rightarrow> Serializer \<Rightarrow> error + Serializer" where
  "push_byte v s =
     (case check_size v 1 of Inl e \<Rightarrow> Inl e | Inr _ \<Rightarrow> Inr (push_little_endian v s))"

definition defer_buffer_size_32_big_endian :: "Serializer \<Rightarrow> error + Serializer" where
  "defer_buffer_size_32_big_endian s =
     push_32_big_endian (Int32 0x00000000)
       (s\<lparr>deferred_sizes := deferred_sizes s @
            [\<lparr>index = length (ser_buffer s), number_of_bytes = 4, endianness = BIG\<rparr>]\<rparr>)"

text \<open>
  The inner loop of \<open>insert_buffer_sizes\<close>:
  \<open>for (int i = deferred.number_of_bytes - 1; i >= 0; i--) buffer[index++] = (buffer_size >> (i * 8)) & 0xff\<close>,
  again with \<open>i + 1\<close> as first argument.  A write outside the vector is undefined.
\<close>

fun insert_size_loop :: "nat \<Rightarrow> nat \<Rightarrow> size_t \<Rightarrow> byte list \<Rightarrow> error + byte list" where
  "insert_size_loop 0 idx bsize buf = Inr buf"
| "insert_size_loop (Suc i) idx bsize buf =
     (if idx < length buf
      then insert_size_loop i (idx + 1) bsize
             (buf[idx := ucast (drop_bit (i * 8) bsize AND 0xff)])
      else Inl Undefined_behaviour)"

text \<open>The outer loop, \<open>for (auto &deferred : this->deferred_sizes)\<close>.\<close>

fun insert_sizes_loop ::
  "Deferred_Buffer_Size list \<Rightarrow> size_t \<Rightarrow> byte list \<Rightarrow> error + byte list" where
  "insert_sizes_loop [] bsize buf = Inr buf"
| "insert_sizes_loop (deferred # rest) bsize buf =
     (case insert_size_loop (unat (number_of_bytes deferred)) (index deferred) bsize buf of
        Inl e \<Rightarrow> Inl e
      | Inr buf' \<Rightarrow> insert_sizes_loop rest bsize buf')"

definition insert_buffer_sizes :: "Serializer \<Rightarrow> error + Serializer" where
  "insert_buffer_sizes s =
     (case insert_sizes_loop (deferred_sizes s) (of_nat (length (ser_buffer s))) (ser_buffer s) of
        Inl e \<Rightarrow> Inl e
      | Inr buf \<Rightarrow> Inr (s\<lparr>ser_buffer := buf\<rparr>))"

text \<open>\<open>Serializer::get_buffer\<close> returns the patched buffer; the object keeps the patches.\<close>

definition ser_get_buffer :: "Serializer \<Rightarrow> error + (byte list \<times> Serializer)" where
  "ser_get_buffer s =
     (case insert_buffer_sizes s of
        Inl e \<Rightarrow> Inl e
      | Inr s' \<Rightarrow> Inr (ser_buffer s', s'))"

definition ser_get_buffer_size :: "Serializer \<Rightarrow> nat" where
  "ser_get_buffer_size s = length (ser_buffer s)"

text \<open>
  The public interface as operations on the object.  \<open>print_buffer\<close> and
  \<open>get_buffer_string\<close> change the object as \<open>get_buffer\<close> does, through
  \<open>insert_buffer_sizes\<close>.  An operation that throws leaves the object as it was.
\<close>

datatype writer_op =
    Push_little_endian numeric
  | Push_big_endian numeric
  | Push_16_big_endian numeric
  | Push_32_big_endian numeric
  | Push_64_big_endian numeric
  | Push_16_little_endian numeric
  | Push_32_little_endian numeric
  | Push_64_little_endian numeric
  | Push_buffer "byte list"
  | Push_object "byte list"
  | Push_byte numeric
  | Ser_get_buffer
  | Ser_print_buffer
  | Ser_get_buffer_string
  | Defer_buffer_size_32_big_endian

definition or_unchanged :: "Serializer \<Rightarrow> error + Serializer \<Rightarrow> Serializer" where
  "or_unchanged s r = (case r of Inl e \<Rightarrow> s | Inr s' \<Rightarrow> s')"

fun writer_step :: "writer_op \<Rightarrow> Serializer \<Rightarrow> Serializer" where
  "writer_step (Push_little_endian v) s = push_little_endian v s"
| "writer_step (Push_big_endian v) s = push_big_endian v s"
| "writer_step (Push_16_big_endian v) s = or_unchanged s (push_16_big_endian v s)"
| "writer_step (Push_32_big_endian v) s = or_unchanged s (push_32_big_endian v s)"
| "writer_step (Push_64_big_endian v) s = or_unchanged s (push_64_big_endian v s)"
| "writer_step (Push_16_little_endian v) s = or_unchanged s (push_16_little_endian v s)"
| "writer_step (Push_32_little_endian v) s = or_unchanged s (push_32_little_endian v s)"
| "writer_step (Push_64_little_endian v) s = or_unchanged s (push_64_little_endian v s)"
| "writer_step (Push_buffer vs) s = push_buffer vs s"
| "writer_step (Push_object vs) s = push_object vs s"
| "writer_step (Push_byte v) s = or_unchanged s (push_byte v s)"
| "writer_step Ser_get_buffer s = or_unchanged s (insert_buffer_sizes s)"
| "writer_step Ser_print_buffer s = or_unchanged s (insert_buffer_sizes s)"
| "writer_step Ser_get_buffer_string s = or_unchanged s (insert_buffer_sizes s)"
| "writer_step Defer_buffer_size_32_big_endian s = or_unchanged s (defer_buffer_size_32_big_endian s)"

fun writer_run :: "writer_op list \<Rightarrow> Serializer \<Rightarrow> Serializer" where
  "writer_run [] s = s"
| "writer_run (x # xs) s = writer_run xs (writer_step x s)"

section \<open>Auxiliary definitions for the properties\<close>

text \<open>
  Method chaining, \<open>a.f().g()\<close>: the next call runs on the object the previous one
  returned, and an exception of the previous call skips it.
\<close>

definition then_call :: "error + Serializer \<Rightarrow> (Serializer \<Rightarrow> error + 'a) \<Rightarrow> error + 'a" where
  "then_call r f = (case r of Inl e \<Rightarrow> Inl e | Inr s \<Rightarrow> f s)"

text \<open>
  Writing with a fresh \<open>Serializer\<close>, taking its buffer with \<open>get_buffer\<close>, constructing a
  \<open>Deserializer\<close> on that buffer and reading once.
\<close>

definition write_then_read ::
  "(Serializer \<Rightarrow> error + Serializer) \<Rightarrow> (Deserializer \<Rightarrow> (error + 'a) \<times> Deserializer) \<Rightarrow> error + 'a" where
  "write_then_read push get =
     (case then_call (push Serializer_ctor) ser_get_buffer of
        Inl e \<Rightarrow> Inl e
      | Inr (buf, s) \<Rightarrow> fst (get (Deserializer_ctor buf)))"

text \<open>
  The big-endian encoding in the words of the specification (section 4.3): for a value
  and a width \<open>w\<close>, "big-endian encoding emits byte \<open>(value >> 8*(w-1-i)) & 0xFF\<close> for output
  position \<open>i = 0..w-1\<close>".  The value is a natural number, so a value of more than \<open>w\<close> bytes
  keeps its low \<open>w\<close> bytes.
\<close>

definition big_endian_encoding :: "nat \<Rightarrow> nat \<Rightarrow> byte list" where
  "big_endian_encoding w val =
     map (\<lambda>i. of_nat (drop_bit (8 * (w - 1 - i)) val AND 0xff)) [0..<w]"

text \<open>The bytes that the inner loop of \<open>insert_buffer_sizes\<close> writes, in the order it writes them.\<close>

fun size_bytes :: "nat \<Rightarrow> size_t \<Rightarrow> byte list" where
  "size_bytes 0 bsize = []"
| "size_bytes (Suc i) bsize = ucast (drop_bit (i * 8) bsize AND 0xff) # size_bytes i bsize"

text \<open>
  The invariant of the writer: the deferred sizes are four bytes wide and big-endian, they
  lie in the buffer in the order of their registration, and they do not overlap.
\<close>

fun patches_ok :: "nat \<Rightarrow> Deferred_Buffer_Size list \<Rightarrow> nat \<Rightarrow> bool" where
  "patches_ok lo [] len = (lo \<le> len)"
| "patches_ok lo (d # ds) len =
     (lo \<le> index d \<and> number_of_bytes d = 4 \<and> endianness d = BIG \<and>
      patches_ok (index d + 4) ds len)"

definition Serializer_inv :: "Serializer \<Rightarrow> bool" where
  "Serializer_inv s = patches_ok 0 (deferred_sizes s) (length (ser_buffer s))"

section \<open>Properties of the Deserializer\<close>

lemma inv_ctor: "Deserializer_inv (Deserializer_ctor buf)"
  by (simp add: Deserializer_inv_def Deserializer_ctor_def unat_of_nat)

lemma update_remaining_inv:
  "unat (buffer_size s) \<le> length (buffer s) \<Longrightarrow> cursor s \<le> buffer_size s \<Longrightarrow>
   Deserializer_inv (update_remaining s)"
  by (auto simp: Deserializer_inv_def update_remaining_def)

lemma available_no_wrap:
  assumes "Deserializer_inv s" and "\<not> remaining s < n"
  shows "unat (cursor s) + unat n \<le> unat (buffer_size s)"
  using assms unfolding Deserializer_inv_def by unat_arith

lemma advance_le:
  assumes "Deserializer_inv s" and "\<not> remaining s < n"
  shows "cursor s + n \<le> buffer_size s"
  using assms unfolding Deserializer_inv_def by unat_arith

lemma skip_inv:
  assumes "Deserializer_inv s"
  shows "Deserializer_inv (snd (skip n s))"
proof (cases "remaining s < n")
  case True
  then show ?thesis using assms by (simp add: skip_def assert_is_available_def)
next
  case False
  have "Deserializer_inv (update_remaining (s\<lparr>cursor := cursor s + n\<rparr>))"
    using assms advance_le[OF assms False]
    by (intro update_remaining_inv) (simp_all add: Deserializer_inv_def)
  then show ?thesis using False by (simp add: skip_def assert_is_available_def)
qed

lemma reset_cursor_inv:
  assumes "Deserializer_inv s"
  shows "Deserializer_inv (reset_cursor s)"
  unfolding reset_cursor_def using assms
  by (intro update_remaining_inv) (simp_all add: Deserializer_inv_def)

lemma get_buffer_inv:
  assumes "Deserializer_inv s"
  shows "Deserializer_inv (snd (get_buffer n s))"
proof (cases "remaining s < n")
  case True
  then show ?thesis using assms by (simp add: get_buffer_def assert_is_available_def)
next
  case False
  have "Deserializer_inv (update_remaining (s\<lparr>cursor := cursor s + n\<rparr>))"
    using assms advance_le[OF assms False]
    by (intro update_remaining_inv) (simp_all add: Deserializer_inv_def)
  then show ?thesis using False assms by (simp add: get_buffer_def assert_is_available_def)
qed

lemma cursor_step:
  fixes c b :: size_t
  assumes "unat c < unat b"
  shows "unat (c + 1) = unat c + 1"
  using assms by unat_arith

lemma get_big_endian_loop_ok:
  "unat (cursor s) + n \<le> unat (buffer_size s) \<Longrightarrow> unat (buffer_size s) \<le> length (buffer s) \<Longrightarrow>
   \<exists>v'. get_big_endian_loop n v s = (Inr v', s\<lparr>cursor := cursor s + of_nat n\<rparr>)"
proof (induction n arbitrary: v s)
  case 0
  then show ?case by simp
next
  case (Suc n)
  have lt: "unat (cursor s) < unat (buffer_size s)" using Suc.prems by simp
  then have u: "unat (cursor s + 1) = unat (cursor s) + 1"
    by (rule cursor_step)
  let ?s = "s\<lparr>cursor := cursor s + 1\<rparr>"
  have "unat (cursor ?s) + n \<le> unat (buffer_size ?s)" "unat (buffer_size ?s) \<le> length (buffer ?s)"
    using Suc.prems u by simp_all
  from Suc.IH[OF this] lt Suc.prems show ?case
    by (auto simp: add.assoc)
qed

lemma get_little_endian_loop_ok:
  "unat (cursor s) + (n - i) \<le> unat (buffer_size s) \<Longrightarrow> unat (buffer_size s) \<le> length (buffer s) \<Longrightarrow>
   \<exists>v'. get_little_endian_loop i n v s = (Inr v', s\<lparr>cursor := cursor s + of_nat (n - i)\<rparr>)"
proof (induction i n v s rule: get_little_endian_loop.induct)
  case (1 i n v s)
  show ?case
  proof (cases "i < n")
    case False
    then show ?thesis by (simp add: get_little_endian_loop.simps)
  next
    case True
    have lt: "unat (cursor s) < unat (buffer_size s)" using "1.prems" True by simp
    then have u: "unat (cursor s + 1) = unat (cursor s) + 1"
      by (rule cursor_step)
    let ?s = "s\<lparr>cursor := cursor s + 1\<rparr>"
    have inr: "unat (cursor s) < length (buffer s)" using lt "1.prems" by simp
    have a: "unat (cursor ?s) + (n - (i + 1)) \<le> unat (buffer_size ?s)"
      and b: "unat (buffer_size ?s) \<le> length (buffer ?s)"
      using "1.prems" u True by simp_all
    from "1.IH"[OF True inr a b] obtain v' where
      "get_little_endian_loop (i + 1) n (v OR push_bit (8 * i) (ucast (buffer s ! unat (cursor s)))) ?s
         = (Inr v', ?s\<lparr>cursor := cursor ?s + of_nat (n - (i + 1))\<rparr>)" by blast
    moreover have "of_nat (n - i) = (1 :: size_t) + of_nat (n - (i + 1))"
      using True by (metis Suc_diff_Suc Suc_eq_plus1 of_nat_Suc)
    ultimately show ?thesis using True inr
      by (subst get_little_endian_loop.simps) (simp add: add.assoc)
  qed
qed

lemma get_big_endian_inv:
  assumes "Deserializer_inv s"
  shows "Deserializer_inv (snd (get_big_endian n s))"
proof (cases "remaining s < n")
  case True
  then show ?thesis using assms by (simp add: get_big_endian_def assert_is_available_def)
next
  case False
  have bs: "unat (buffer_size s) \<le> length (buffer s)" using assms by (simp add: Deserializer_inv_def)
  from get_big_endian_loop_ok[OF available_no_wrap[OF assms False] bs, of 0]
  obtain v' where l: "get_big_endian_loop (unat n) 0 s = (Inr v', s\<lparr>cursor := cursor s + n\<rparr>)"
    by auto
  have "Deserializer_inv (update_remaining (s\<lparr>cursor := cursor s + n\<rparr>))"
    using assms advance_le[OF assms False]
    by (intro update_remaining_inv) (simp_all add: Deserializer_inv_def)
  then show ?thesis using False l by (simp add: get_big_endian_def assert_is_available_def)
qed

lemma get_little_endian_inv:
  assumes "Deserializer_inv s"
  shows "Deserializer_inv (snd (get_little_endian n s))"
proof (cases "remaining s < n")
  case True
  then show ?thesis using assms by (simp add: get_little_endian_def assert_is_available_def)
next
  case False
  have bs: "unat (buffer_size s) \<le> length (buffer s)" using assms by (simp add: Deserializer_inv_def)
  from get_little_endian_loop_ok[of s "unat n" 0 0] available_no_wrap[OF assms False] bs
  obtain v' where l: "get_little_endian_loop 0 (unat n) 0 s = (Inr v', s\<lparr>cursor := cursor s + n\<rparr>)"
    by auto
  have "Deserializer_inv (update_remaining (s\<lparr>cursor := cursor s + n\<rparr>))"
    using assms advance_le[OF assms False]
    by (intro update_remaining_inv) (simp_all add: Deserializer_inv_def)
  then show ?thesis using False l by (simp add: get_little_endian_def assert_is_available_def)
qed

lemma snd_cast_result: "snd (cast_result f r) = snd r"
  by (cases r) (auto simp: cast_result_def split: sum.splits)

lemma reader_step_inv: "Deserializer_inv s \<Longrightarrow> Deserializer_inv (reader_step x s)"
  by (cases x)
     (simp_all add: get_byte_def get_16_big_endian_def get_32_big_endian_def get_64_big_endian_def
        get_16_little_endian_def get_32_little_endian_def get_64_little_endian_def
        snd_cast_result get_big_endian_inv get_little_endian_inv skip_inv reset_cursor_inv
        get_buffer_inv set_cursor_def)

lemma reader_run_inv: "Deserializer_inv s \<Longrightarrow> Deserializer_inv (reader_run xs s)"
  by (induction xs arbitrary: s) (simp_all add: reader_step_inv)



lemma get_buffer_zero: 
  assumes "Deserializer_inv s"
  shows "get_buffer 0 s = (Inr [], s)"
proof -
  have "unat (cursor s) \<le> length (buffer s)"
    using assms unfolding Deserializer_inv_def by (meson le_trans word_le_nat_alt)
  moreover have "update_remaining s = s"
    using assms by (auto simp: Deserializer_inv_def update_remaining_def)
  ultimately show ?thesis
    by (simp add: get_buffer_def assert_is_available_def)
qed

section \<open>Properties of the Serializer\<close>

lemma length_size_bytes: "length (size_bytes n bsize) = n"
  by (induction n) simp_all

lemma insert_size_loop_in_range:
  "idx + n \<le> length buf \<Longrightarrow>
   insert_size_loop n idx bsize buf = Inr (take idx buf @ size_bytes n bsize @ drop (idx + n) buf)"
proof (induction n arbitrary: idx buf)
  case 0
  then show ?case by simp
next
  case (Suc n)
  let ?x = "ucast (drop_bit (n * 8) bsize AND 0xff) :: byte"
  have lt: "idx < length buf" using Suc.prems by simp
  have "insert_size_loop n (idx + 1) bsize (buf[idx := ?x]) =
          Inr (take (idx + 1) (buf[idx := ?x]) @ size_bytes n bsize @ drop (idx + 1 + n) (buf[idx := ?x]))"
    using Suc.prems by (intro Suc.IH) simp
  moreover have "take (idx + 1) (buf[idx := ?x]) = take idx buf @ [?x]"
    using lt by (simp add: take_Suc_conv_app_nth)
  ultimately show ?case using lt by simp
qed

lemma patches_ok_mono: "patches_ok lo ds len \<Longrightarrow> len \<le> len' \<Longrightarrow> patches_ok lo ds len'"
  by (induction ds arbitrary: lo) auto

lemma patches_ok_lo: "patches_ok lo ds len \<Longrightarrow> lo \<le> len"
proof (induction ds arbitrary: lo)
  case Nil
  then show ?case by simp
next
  case (Cons d ds)
  from Cons.IH[of "index d + 4"] Cons.prems show ?case by simp
qed

lemma patches_ok_snoc:
  "patches_ok lo ds len \<Longrightarrow> len' = len + 4 \<Longrightarrow>
   patches_ok lo (ds @ [\<lparr>index = len, number_of_bytes = 4, endianness = BIG\<rparr>]) len'"
  by (induction ds arbitrary: lo) auto

lemma patches_ok_fields:
  "patches_ok lo ds len \<Longrightarrow> d \<in> set ds \<Longrightarrow>
   number_of_bytes d = 4 \<and> endianness d = BIG \<and> lo \<le> index d \<and> index d + 4 \<le> len"
proof (induction ds arbitrary: lo)
  case Nil
  then show ?case by simp
next
  case (Cons a ds)
  show ?case
  proof (cases "d = a")
    case True
    then show ?thesis using Cons.prems patches_ok_lo[of "index a + 4" ds len] by simp
  next
    case False
    then have "d \<in> set ds" using Cons.prems by simp
    from Cons.IH[OF _ this, of "index a + 4"] Cons.prems show ?thesis by simp
  qed
qed

lemma insert_sizes_loop_patches:
  "patches_ok lo ds (length buf) \<Longrightarrow>
   \<exists>buf'. insert_sizes_loop ds bsize buf = Inr buf' \<and> length buf' = length buf \<and>
          take lo buf' = take lo buf \<and>
          (\<forall>d \<in> set ds. take 4 (drop (index d) buf') = size_bytes 4 bsize)"
proof (induction ds arbitrary: lo buf)
  case Nil
  then show ?case by simp
next
  case (Cons d ds)
  let ?i = "index d"
  let ?b1 = "take ?i buf @ size_bytes 4 bsize @ drop (?i + 4) buf"
  have ok: "patches_ok (?i + 4) ds (length buf)" and nb: "number_of_bytes d = 4" and lo: "lo \<le> ?i"
    using Cons.prems by simp_all
  have rng: "?i + 4 \<le> length buf" using patches_ok_lo[OF ok] .
  have first: "insert_size_loop (unat (number_of_bytes d)) ?i bsize buf = Inr ?b1"
    using insert_size_loop_in_range[OF rng, of bsize] nb by simp
  have len1: "length ?b1 = length buf" using rng by (simp add: length_size_bytes)
  from Cons.IH[of "?i + 4" ?b1] ok len1 obtain buf' where
    r: "insert_sizes_loop ds bsize ?b1 = Inr buf'" and l: "length buf' = length buf"
    and t: "take (?i + 4) buf' = take (?i + 4) ?b1"
    and a: "\<forall>d \<in> set ds. take 4 (drop (index d) buf') = size_bytes 4 bsize"
    by auto
  have t1: "take (?i + 4) ?b1 = take ?i buf @ size_bytes 4 bsize"
    using rng by (simp add: length_size_bytes)
  have "take lo buf' = take lo (take (?i + 4) buf')" using lo by (simp add: min_def)
  also have "\<dots> = take lo buf" using lo rng unfolding t t1 by simp
  finally have tl: "take lo buf' = take lo buf" .
  have "take 4 (drop ?i buf') = drop ?i (take (?i + 4) buf')"
    by (simp add: drop_take add.commute)
  also have "\<dots> = size_bytes 4 bsize" using rng unfolding t t1 by simp
  finally have "take 4 (drop ?i buf') = size_bytes 4 bsize" .
  with first r l tl a show ?case by simp
qed

lemma insert_sizes_loop_fixpoint:
  "(\<forall>d \<in> set ds. index d + unat (number_of_bytes d) \<le> length buf \<and>
       take (unat (number_of_bytes d)) (drop (index d) buf) = size_bytes (unat (number_of_bytes d)) bsize) \<Longrightarrow>
   insert_sizes_loop ds bsize buf = Inr buf"
proof (induction ds)
  case Nil
  then show ?case by simp
next
  case (Cons d ds)
  let ?n = "unat (number_of_bytes d)"
  have rng: "index d + ?n \<le> length buf"
    and eq: "take ?n (drop (index d) buf) = size_bytes ?n bsize"
    using Cons.prems by simp_all
  have "take ?n (drop (index d) buf) @ drop (index d + ?n) buf = drop (index d) buf"
    by (metis append_take_drop_id drop_drop add.commute)
  then have "take (index d) buf @ size_bytes ?n bsize @ drop (index d + ?n) buf = buf"
    using eq by simp
  then have "insert_size_loop ?n (index d) bsize buf = Inr buf"
    using insert_size_loop_in_range[OF rng, of bsize] by simp
  then show ?case using Cons by simp
qed


lemma low_byte_mask: "(255 :: 'a::len word) = mask 8"
  by (simp add: mask_eq_exp_minus_1)

lemma low_byte_mask_nat: "(255 :: nat) = mask 8"
  by (simp add: mask_eq_exp_minus_1)

lemma size_byte_of_nat:
  "k + 8 \<le> 64 \<Longrightarrow>
   (ucast (drop_bit k (of_nat val :: size_t) AND 0xff) :: byte) = of_nat (drop_bit k val AND 0xff)"
  by (rule bit_word_eqI) (auto simp add: bit_simps low_byte_mask low_byte_mask_nat)

lemma upt_0_4: "[0..<4] = [0, 1, 2, 3::nat]"
  by (simp add: upt_rec)

lemma size_bytes_4: "size_bytes 4 (of_nat val) = big_endian_encoding 4 val"
proof -
  have "size_bytes 4 (of_nat val) = size_bytes (Suc (Suc (Suc (Suc 0)))) (of_nat val)"
    by (simp add: numeral_eq_Suc)
  also have "\<dots> = big_endian_encoding 4 val"
    using size_byte_of_nat[of 24 val] size_byte_of_nat[of 16 val] size_byte_of_nat[of 8 val]
      size_byte_of_nat[of 0 val]
    by (simp add: big_endian_encoding_def upt_0_4)
  finally show ?thesis .
qed

lemma push_big_endian_loop_app:
  "push_big_endian_loop n v buf = buf @ map (shifted_byte v) (rev [0..<n])"
  by (induction n arbitrary: buf) (simp_all del: shifted_byte.simps)

lemma push_little_endian_loop_app:
  "push_little_endian_loop i v buf = buf @ map (shifted_byte v) [i..<sizeof v]"
proof (induction i v buf rule: push_little_endian_loop.induct)
  case (1 i v buf)
  show ?case
  proof (cases "i < sizeof v")
    case True
    with 1 show ?thesis
      by (subst push_little_endian_loop.simps) (simp add: upt_conv_Cons del: shifted_byte.simps)
  next
    case False
    then show ?thesis by (subst push_little_endian_loop.simps) simp
  qed
qed

lemma insert_size_loop_length:
  "insert_size_loop n idx bsize buf = Inr buf' \<Longrightarrow> length buf' = length buf"
  by (induction n arbitrary: idx buf) (auto split: if_splits)

lemma insert_sizes_loop_length:
  "insert_sizes_loop ds bsize buf = Inr buf' \<Longrightarrow> length buf' = length buf"
  by (induction ds arbitrary: buf) (auto split: sum.splits dest: insert_size_loop_length)

lemma defer_result:
  "defer_buffer_size_32_big_endian s =
     Inr \<lparr>ser_buffer = ser_buffer s @ [0, 0, 0, 0],
          deferred_sizes = deferred_sizes s @
            [\<lparr>index = length (ser_buffer s), number_of_bytes = 4, endianness = BIG\<rparr>]\<rparr>"
  by (simp add: defer_buffer_size_32_big_endian_def push_32_big_endian_def check_size_def
        push_big_endian_def push_big_endian_loop_app upt_0_4)

lemma writer_step_grows:
  assumes "x \<noteq> Defer_buffer_size_32_big_endian"
  shows "deferred_sizes (writer_step x s) = deferred_sizes s \<and>
         length (ser_buffer s) \<le> length (ser_buffer (writer_step x s))"
  using assms
  by (cases x)
     (auto simp: or_unchanged_def push_16_big_endian_def push_32_big_endian_def
        push_64_big_endian_def push_16_little_endian_def push_32_little_endian_def
        push_64_little_endian_def push_byte_def push_big_endian_def push_little_endian_def
        push_buffer_def push_object_def push_big_endian_loop_app push_little_endian_loop_app
        insert_buffer_sizes_def
        split: sum.splits dest: insert_sizes_loop_length)

lemma writer_step_inv: "Serializer_inv s \<Longrightarrow> Serializer_inv (writer_step x s)"
proof (cases "x = Defer_buffer_size_32_big_endian")
  case True
  assume "Serializer_inv s"
  then show ?thesis using True
    by (simp add: Serializer_inv_def defer_result or_unchanged_def patches_ok_snoc)
next
  case False
  assume "Serializer_inv s"
  then show ?thesis using writer_step_grows[OF False, of s]
    by (auto simp: Serializer_inv_def intro: patches_ok_mono)
qed

lemma writer_run_inv: "Serializer_inv s \<Longrightarrow> Serializer_inv (writer_run xs s)"
  by (induction xs arbitrary: s) (simp_all add: writer_step_inv)

lemma Serializer_ctor_inv: "Serializer_inv Serializer_ctor"
  by (simp add: Serializer_inv_def Serializer_ctor_def)

lemma Serializer_ctor_sized_inv: "Serializer_inv (Serializer_ctor_sized sz v)"
  by (simp add: Serializer_inv_def Serializer_ctor_sized_def)

lemma ser_get_buffer_inv:
  assumes "Serializer_inv s"
  shows "\<exists>b. ser_get_buffer s = Inr (b, s\<lparr>ser_buffer := b\<rparr>) \<and>
             ser_get_buffer (s\<lparr>ser_buffer := b\<rparr>) = Inr (b, s\<lparr>ser_buffer := b\<rparr>) \<and>
             length b = length (ser_buffer s) \<and>
             (\<forall>d \<in> set (deferred_sizes s).
                take 4 (drop (index d) b) = big_endian_encoding 4 (length b))"
proof -
  let ?n = "of_nat (length (ser_buffer s)) :: size_t"
  have ok: "patches_ok 0 (deferred_sizes s) (length (ser_buffer s))"
    using assms by (simp add: Serializer_inv_def)
  from insert_sizes_loop_patches[OF ok, of ?n] obtain b where
    r: "insert_sizes_loop (deferred_sizes s) ?n (ser_buffer s) = Inr b"
    and l: "length b = length (ser_buffer s)"
    and a: "\<forall>d \<in> set (deferred_sizes s). take 4 (drop (index d) b) = size_bytes 4 ?n"
    by auto
  have "\<forall>d \<in> set (deferred_sizes s).
          index d + unat (number_of_bytes d) \<le> length b \<and>
          take (unat (number_of_bytes d)) (drop (index d) b) = size_bytes (unat (number_of_bytes d)) ?n"
    using patches_ok_fields[OF ok] a l by auto
  then have again: "insert_sizes_loop (deferred_sizes s) ?n b = Inr b"
    by (rule insert_sizes_loop_fixpoint)
  have "ser_get_buffer s = Inr (b, s\<lparr>ser_buffer := b\<rparr>)"
    using r by (simp add: ser_get_buffer_def insert_buffer_sizes_def)
  moreover have "ser_get_buffer (s\<lparr>ser_buffer := b\<rparr>) = Inr (b, s\<lparr>ser_buffer := b\<rparr>)"
    using again l by (simp add: ser_get_buffer_def insert_buffer_sizes_def)
  ultimately show ?thesis using l a by (auto simp: size_bytes_4)
qed

lemma push_big_endian_loop_numeral:
  "push_big_endian_loop (numeral k) v buf =
     push_big_endian_loop (pred_numeral k) v (buf @ [shifted_byte v (pred_numeral k)])"
  by (simp add: numeral_eq_Suc)

lemma push_big_endian_loop_1:
  "push_big_endian_loop 1 v buf = buf @ [shifted_byte v 0]"
  by (simp add: One_nat_def del: shifted_byte.simps)

lemma get_big_endian_loop_numeral:
  "get_big_endian_loop (numeral k) v s =
     (if unat (cursor s) < length (buffer s)
      then get_big_endian_loop (pred_numeral k)
             (v OR push_bit (8 * pred_numeral k) (ucast (buffer s ! unat (cursor s))))
             (s\<lparr>cursor := cursor s + 1\<rparr>)
      else (Inl Undefined_behaviour, s))"
  by (simp add: numeral_eq_Suc)

lemma get_big_endian_loop_1:
  "get_big_endian_loop 1 v s =
     (if unat (cursor s) < length (buffer s)
      then (Inr (v OR ucast (buffer s ! unat (cursor s))), s\<lparr>cursor := cursor s + 1\<rparr>)
      else (Inl Undefined_behaviour, s))"
  by (simp add: One_nat_def)

lemma insert_size_loop_numeral:
  "insert_size_loop (numeral k) idx bsize buf =
     (if idx < length buf
      then insert_size_loop (pred_numeral k) (idx + 1) bsize
             (buf[idx := ucast (drop_bit (pred_numeral k * 8) bsize AND 0xff)])
      else Inl Undefined_behaviour)"
  by (simp add: numeral_eq_Suc)

lemma insert_size_loop_1:
  "insert_size_loop 1 idx bsize buf =
     (if idx < length buf
      then Inr (buf[idx := ucast (bsize AND 0xff)])
      else Inl Undefined_behaviour)"
  by (simp add: One_nat_def)

lemmas loop_unroll = push_big_endian_loop_numeral push_big_endian_loop_1
  get_big_endian_loop_numeral get_big_endian_loop_1 insert_size_loop_numeral insert_size_loop_1
  push_little_endian_loop.simps get_little_endian_loop.simps

lemmas writer_defs = push_16_big_endian_def push_32_big_endian_def push_64_big_endian_def
  push_16_little_endian_def push_32_little_endian_def push_64_little_endian_def push_byte_def
  defer_buffer_size_32_big_endian_def check_size_def make_error_message_bits_def
  push_big_endian_def push_little_endian_def push_buffer_def push_object_def
  Serializer_ctor_def ser_get_buffer_def insert_buffer_sizes_def then_call_def

lemmas reader_defs = Deserializer_ctor_def get_byte_def get_16_big_endian_def
  get_32_big_endian_def get_64_big_endian_def get_16_little_endian_def get_32_little_endian_def
  get_64_little_endian_def cast_result_def get_big_endian_def get_little_endian_def
  assert_is_available_def make_error_message_def update_remaining_def skip_def get_buffer_def

lemma bit_encoded_byte:
  "bit (push_bit j (ucast (of_nat (drop_bit j n AND 255) :: byte)) :: 64 word) k
     \<longleftrightarrow> j \<le> k \<and> k < j + 8 \<and> k < 64 \<and> bit n k"
  by (auto simp add: bit_simps low_byte_mask_nat)

lemma bit_encoded_byte0:
  "bit (ucast (of_nat (n AND 255) :: byte) :: 64 word) k \<longleftrightarrow> k < 8 \<and> bit n k"
  using bit_encoded_byte[of 0 n k] by auto

lemma bit_narrow:
  "bit (ucast (w :: 64 word) :: 'b::len word) n \<longleftrightarrow> n < LENGTH('b) \<and> bit w n"
  by (simp add: bit_ucast_iff)

lemma read_size_field:
  "fst (get_32_big_endian (Deserializer_ctor (big_endian_encoding 4 n))) = Inr (of_nat n)"
proof -
  have "ucast (((push_bit 24 (ucast (of_nat (drop_bit 24 n AND 255) :: byte)) OR
                 push_bit 16 (ucast (of_nat (drop_bit 16 n AND 255) :: byte))) OR
                 push_bit 8 (ucast (of_nat (drop_bit 8 n AND 255) :: byte))) OR
                 ucast (of_nat (n AND 255) :: byte) :: 64 word) = (of_nat n :: 32 word)"
    apply (rule bit_word_eqI)
    apply (simp only: bit_narrow bit_or_iff bit_encoded_byte bit_encoded_byte0 bit_of_nat_iff)
    apply (auto simp: possible_bit_word)
    done
  then show ?thesis
    by (simp add: big_endian_encoding_def upt_0_4 reader_defs loop_unroll)
qed

lemma encoding_4_bytes:
  "big_endian_encoding 4 n =
     [of_nat (n div 2 ^ 24), of_nat (n div 2 ^ 16), of_nat (n div 2 ^ 8), of_nat n]"
proof -
  have "(of_nat (drop_bit k n AND 255) :: byte) = of_nat (n div 2 ^ k)" for k
    by (rule bit_word_eqI) (auto simp add: bit_simps low_byte_mask_nat simp flip: drop_bit_eq_div)
  from this[of 24] this[of 16] this[of 8] this[of 0]
  show ?thesis by (simp add: big_endian_encoding_def upt_0_4)
qed

lemma deferred_size_written:
  "then_call (defer_buffer_size_32_big_endian (push_buffer A Serializer_ctor))
             (ser_get_buffer \<circ> push_buffer B) =
     Inr (A @ big_endian_encoding 4 (length A + 4 + length B) @ B,
          \<lparr>ser_buffer = A @ big_endian_encoding 4 (length A + 4 + length B) @ B,
           deferred_sizes = [\<lparr>index = length A, number_of_bytes = 4, endianness = BIG\<rparr>]\<rparr>)"
proof -
  define n where "n = length A + 4 + length B"
  define buf where "buf = A @ [0, 0, 0, 0] @ B"
  have len: "length buf = n" by (simp add: n_def buf_def)
  have rng: "length A + 4 \<le> length buf" by (simp add: buf_def)
  have parts: "take (length A) buf = A" "drop (length A + 4) buf = B"
    by (simp_all add: buf_def)
  have "insert_size_loop 4 (length A) (of_nat n) buf =
          Inr (take (length A) buf @ size_bytes 4 (of_nat n) @ drop (length A + 4) buf)"
    by (rule insert_size_loop_in_range[OF rng])
  then have "insert_size_loop 4 (length A) (of_nat n) buf = Inr (A @ big_endian_encoding 4 n @ B)"
    by (simp only: parts size_bytes_4)
  then have "insert_sizes_loop [\<lparr>index = length A, number_of_bytes = 4, endianness = BIG\<rparr>]
               (of_nat (length buf)) buf = Inr (A @ big_endian_encoding 4 n @ B)"
    unfolding len by simp
  then have "ser_get_buffer
               \<lparr>ser_buffer = buf,
                deferred_sizes = [\<lparr>index = length A, number_of_bytes = 4, endianness = BIG\<rparr>]\<rparr> =
             Inr (A @ big_endian_encoding 4 n @ B,
                  \<lparr>ser_buffer = A @ big_endian_encoding 4 n @ B,
                   deferred_sizes = [\<lparr>index = length A, number_of_bytes = 4, endianness = BIG\<rparr>]\<rparr>)"
    by (simp add: ser_get_buffer_def insert_buffer_sizes_def)
  moreover have "then_call (defer_buffer_size_32_big_endian (push_buffer A Serializer_ctor))
             (ser_get_buffer \<circ> push_buffer B) =
        ser_get_buffer
               \<lparr>ser_buffer = buf,
                deferred_sizes = [\<lparr>index = length A, number_of_bytes = 4, endianness = BIG\<rparr>]\<rparr>"
    by (simp add: then_call_def defer_result push_buffer_def Serializer_ctor_def buf_def)
  ultimately show ?thesis unfolding n_def by simp
qed

lemma bit_pushed_byte:
  "bit (push_bit k (ucast (ucast (drop_bit k (v :: 'a::len word) AND 255) :: 8 word)) :: 'b::len word) n
     \<longleftrightarrow> k \<le> n \<and> n < k + 8 \<and> n < LENGTH('b) \<and> bit v n"
  by (auto simp add: bit_simps low_byte_mask dest: bit_imp_le_length)

lemma bit_pushed_byte0:
  "bit (ucast (ucast ((v :: 'a::len word) AND 255) :: 8 word) :: 'b::len word) n
     \<longleftrightarrow> n < 8 \<and> n < LENGTH('b) \<and> bit v n"
  using bit_pushed_byte[of 0 v n, where 'b='b] by simp

lemmas roundtrip_defs = write_then_read_def writer_defs reader_defs loop_unroll

lemma roundtrip_byte: "write_then_read (push_byte (Int8 v)) get_byte = Inr v"
  apply (simp add: roundtrip_defs)
  apply (rule bit_word_eqI)
  apply (auto simp add: bit_simps low_byte_mask)
  done

lemma roundtrip_byte_generic:
  "write_then_read (Inr \<circ> push_big_endian (Int8 v)) get_byte = Inr v \<and>
   write_then_read (Inr \<circ> push_little_endian (Int8 v)) get_byte = Inr v"
  apply (simp add: roundtrip_defs)
  apply (rule bit_word_eqI)
  apply (auto simp add: bit_simps low_byte_mask)
  done

lemma roundtrip_16_big: "write_then_read (push_16_big_endian (Int16 v)) get_16_big_endian = Inr v"
  apply (simp add: roundtrip_defs)
  apply (rule bit_word_eqI)
  apply (simp only: bit_narrow bit_or_iff bit_pushed_byte bit_pushed_byte0)
  apply (auto dest: bit_imp_le_length)
  done

lemma roundtrip_16_little: "write_then_read (push_16_little_endian (Int16 v)) get_16_little_endian = Inr v"
  apply (simp add: roundtrip_defs)
  apply (rule bit_word_eqI)
  apply (simp only: bit_narrow bit_or_iff bit_pushed_byte bit_pushed_byte0)
  apply (auto dest: bit_imp_le_length)
  done

lemma roundtrip_32_big: "write_then_read (push_32_big_endian (Int32 v)) get_32_big_endian = Inr v"
  apply (simp add: roundtrip_defs)
  apply (rule bit_word_eqI)
  apply (simp only: bit_narrow bit_or_iff bit_pushed_byte bit_pushed_byte0)
  apply (auto dest: bit_imp_le_length)
  done

lemma roundtrip_32_little: "write_then_read (push_32_little_endian (Int32 v)) get_32_little_endian = Inr v"
  apply (simp add: roundtrip_defs)
  apply (rule bit_word_eqI)
  apply (simp only: bit_narrow bit_or_iff bit_pushed_byte bit_pushed_byte0)
  apply (auto dest: bit_imp_le_length)
  done

lemma roundtrip_64_big: "write_then_read (push_64_big_endian (Int64 v)) get_64_big_endian = Inr v"
  apply (simp add: roundtrip_defs)
  apply (rule bit_word_eqI)
  apply (simp only: bit_narrow bit_or_iff bit_pushed_byte bit_pushed_byte0)
  apply (auto dest: bit_imp_le_length)
  done

lemma roundtrip_64_little: "write_then_read (push_64_little_endian (Int64 v)) get_64_little_endian = Inr v"
  apply (simp add: roundtrip_defs)
  apply (rule bit_word_eqI)
  apply (simp only: bit_narrow bit_or_iff bit_pushed_byte bit_pushed_byte0)
  apply (auto dest: bit_imp_le_length)
  done


lemma insert_sizes_loop_ignores_endianness:
  "insert_sizes_loop (map (\<lambda>d. d\<lparr>endianness := e d\<rparr>) ds) bsize buf =
   insert_sizes_loop ds bsize buf"
  by (induction ds arbitrary: buf) (simp_all split: sum.splits)

lemma Serializer_new_inv: "Serializer_inv (Serializer_new c)"
  by (cases c) (auto simp: Serializer_new_def Serializer_ctor_inv Serializer_ctor_sized_inv)

section \<open>The claims\<close>

text \<open>
  Claim C1.  Pushing the bytes \<open>A\<close>, calling \<open>defer_buffer_size_32_big_endian\<close>, pushing the
  bytes \<open>B\<close> and calling \<open>get_buffer\<close> gives a buffer of \<open>length A + 4 + length B\<close> bytes:
  \<open>A\<close> unchanged, then the four-byte big-endian encoding of that total length at offset
  \<open>length A\<close>, then \<open>B\<close> unchanged.  The four bytes are, most significant first, the total
  divided by \<open>2^24\<close>, \<open>2^16\<close>, \<open>2^8\<close> and \<open>1\<close>, each reduced to a byte, and the
  \<open>Deserializer\<close> reads them back with \<open>get_32_big_endian\<close> as the total length
  (as a 32-bit number).
\<close>

theorem deferred_size_field:
  "then_call (defer_buffer_size_32_big_endian (push_buffer A Serializer_ctor))
             (ser_get_buffer \<circ> push_buffer B) =
     Inr (A @ big_endian_encoding 4 (length A + 4 + length B) @ B,
          \<lparr>ser_buffer = A @ big_endian_encoding 4 (length A + 4 + length B) @ B,
           deferred_sizes = [\<lparr>index = length A, number_of_bytes = 4, endianness = BIG\<rparr>]\<rparr>) \<and>
   length (A @ big_endian_encoding 4 (length A + 4 + length B) @ B) = length A + 4 + length B \<and>
   big_endian_encoding 4 (length A + 4 + length B) =
     [of_nat ((length A + 4 + length B) div 2 ^ 24), of_nat ((length A + 4 + length B) div 2 ^ 16),
      of_nat ((length A + 4 + length B) div 2 ^ 8), of_nat (length A + 4 + length B)] \<and>
   fst (get_32_big_endian (Deserializer_ctor (big_endian_encoding 4 (length A + 4 + length B)))) =
     Inr (of_nat (length A + 4 + length B))"
proof -
  have "length (big_endian_encoding 4 (length A + 4 + length B)) = 4"
    by (simp add: big_endian_encoding_def)
  then show ?thesis
    using deferred_size_written[of A B] encoding_4_bytes[of "length A + 4 + length B"]
      read_size_field[of "length A + 4 + length B"]
    by simp
qed

text \<open>The example of the documentation comment of \<open>defer_buffer_size_32_big_endian\<close>.\<close>

theorem deferred_size_field_witness:
  "then_call (defer_buffer_size_32_big_endian (push_buffer [0x01, 0x02, 0x03] Serializer_ctor))
             (ser_get_buffer \<circ> push_buffer [0xff, 0xff, 0xff]) =
     Inr ([0x01, 0x02, 0x03, 0x00, 0x00, 0x00, 0x0a, 0xff, 0xff, 0xff],
          \<lparr>ser_buffer = [0x01, 0x02, 0x03, 0x00, 0x00, 0x00, 0x0a, 0xff, 0xff, 0xff],
           deferred_sizes = [\<lparr>index = 3, number_of_bytes = 4, endianness = BIG\<rparr>]\<rparr>)"
  using deferred_size_field [of "[0x01, 0x02, 0x03]" "[0xff, 0xff, 0xff]"]
  by simp

text \<open>
  Claim C2, as the specification states it: the sequence \<open>push_16_big_endian(0x1234)\<close>,
  \<open>push_32_little_endian(0x56789abc)\<close>, \<open>defer_buffer_size_32_big_endian()\<close>,
  \<open>push_64_big_endian(0xdef0123456789abc)\<close>, \<open>get_buffer()\<close> would give
  \<open>12 34 bc 9a 78 56 00 00 00 14 de f0 12 34 56 78 9a bc\<close>.  It does not: these are 18
  bytes, and \<open>0x14\<close> is 20.
\<close>

theorem scenario_with_0x14_refuted:
  "map_sum id fst
     (then_call (then_call (then_call (then_call
        (push_16_big_endian (Int16 0x1234) Serializer_ctor)
        (push_32_little_endian (Int32 0x56789abc)))
        defer_buffer_size_32_big_endian)
        (push_64_big_endian (Int64 0xdef0123456789abc)))
        ser_get_buffer) \<noteq>
   Inr [0x12, 0x34, 0xbc, 0x9a, 0x78, 0x56, 0x00, 0x00, 0x00, 0x14,
        0xde, 0xf0, 0x12, 0x34, 0x56, 0x78, 0x9a, 0xbc]"
  by (simp add: writer_defs loop_unroll)

text \<open>
  Claim C2, amended: the sequence gives the 18 bytes
  \<open>12 34 bc 9a 78 56 00 00 00 12 de f0 12 34 56 78 9a bc\<close>; the deferred field at offset 6
  holds \<open>0x12 = 18\<close>, the length of the whole buffer.
\<close>

theorem example_scenario:
  "then_call (then_call (then_call (then_call
       (push_16_big_endian (Int16 0x1234) Serializer_ctor)
       (push_32_little_endian (Int32 0x56789abc)))
       defer_buffer_size_32_big_endian)
       (push_64_big_endian (Int64 0xdef0123456789abc)))
       ser_get_buffer =
   Inr ([0x12, 0x34, 0xbc, 0x9a, 0x78, 0x56, 0x00, 0x00, 0x00, 0x12,
         0xde, 0xf0, 0x12, 0x34, 0x56, 0x78, 0x9a, 0xbc],
        \<lparr>ser_buffer = [0x12, 0x34, 0xbc, 0x9a, 0x78, 0x56, 0x00, 0x00, 0x00, 0x12,
                       0xde, 0xf0, 0x12, 0x34, 0x56, 0x78, 0x9a, 0xbc],
         deferred_sizes = [\<lparr>index = 6, number_of_bytes = 4, endianness = BIG\<rparr>]\<rparr>)"
  by (simp add: writer_defs loop_unroll)

text \<open>
  Claim C3.  For the widths 1, 2, 4 and 8 and both byte orders, a value pushed with the
  push of that width and order into a fresh \<open>Serializer\<close> is returned unchanged by the read
  of that width and order on a \<open>Deserializer\<close> over the resulting buffer.  The one-byte value
  is read back by \<open>get_byte\<close> whichever of \<open>push_byte\<close>, \<open>push_big_endian\<close> and
  \<open>push_little_endian\<close> wrote it.
\<close>

theorem fixed_width_roundtrip:
  "write_then_read (push_byte (Int8 v8)) get_byte = Inr v8 \<and>
   write_then_read (Inr \<circ> push_big_endian (Int8 v8)) get_byte = Inr v8 \<and>
   write_then_read (Inr \<circ> push_little_endian (Int8 v8)) get_byte = Inr v8 \<and>
   write_then_read (push_16_big_endian (Int16 v16)) get_16_big_endian = Inr v16 \<and>
   write_then_read (push_16_little_endian (Int16 v16)) get_16_little_endian = Inr v16 \<and>
   write_then_read (push_32_big_endian (Int32 v32)) get_32_big_endian = Inr v32 \<and>
   write_then_read (push_32_little_endian (Int32 v32)) get_32_little_endian = Inr v32 \<and>
   write_then_read (push_64_big_endian (Int64 v64)) get_64_big_endian = Inr v64 \<and>
   write_then_read (push_64_little_endian (Int64 v64)) get_64_little_endian = Inr v64"
  using roundtrip_byte[of v8] roundtrip_byte_generic[of v8]
    roundtrip_16_big[of v16] roundtrip_16_little[of v16]
    roundtrip_32_big[of v32] roundtrip_32_little[of v32]
    roundtrip_64_big[of v64] roundtrip_64_little[of v64]
  by blast

theorem fixed_width_roundtrip_witness:
  "write_then_read (push_byte (Int8 0xab)) get_byte = Inr 0xab \<and>
   write_then_read (push_16_big_endian (Int16 0x1234)) get_16_big_endian = Inr 0x1234 \<and>
   write_then_read (push_32_little_endian (Int32 0x56789abc)) get_32_little_endian = Inr 0x56789abc \<and>
   write_then_read (push_64_big_endian (Int64 0xdef0123456789abc)) get_64_big_endian =
     Inr 0xdef0123456789abc"
  using fixed_width_roundtrip [of "0xab" "0x1234" "0x56789abc" "0xdef0123456789abc"]
  by blast

text \<open>
  Claim C4.  In any state of the reader, a request for more bytes than \<open>remaining\<close> holds
  fails with the error that carries the requested amount and \<open>remaining\<close>, and the object is
  exactly as before the call: for \<open>skip(n)\<close> and \<open>get_buffer(n)\<close> with \<open>n\<close> above
  \<open>remaining\<close>, and for each fixed-width read whose width is above \<open>remaining\<close>.
\<close>

theorem failed_read_reports_and_keeps_state:
  "(remaining s < n \<longrightarrow>
      skip n s = (Inl (OutOfBounds (unat n) (unat (remaining s))), s) \<and>
      get_buffer n s = (Inl (OutOfBounds (unat n) (unat (remaining s))), s)) \<and>
   (remaining s < 1 \<longrightarrow>
      get_byte s = (Inl (OutOfBounds 1 (unat (remaining s))), s)) \<and>
   (remaining s < 2 \<longrightarrow>
      get_16_big_endian s = (Inl (OutOfBounds 2 (unat (remaining s))), s) \<and>
      get_16_little_endian s = (Inl (OutOfBounds 2 (unat (remaining s))), s)) \<and>
   (remaining s < 4 \<longrightarrow>
      get_32_big_endian s = (Inl (OutOfBounds 4 (unat (remaining s))), s) \<and>
      get_32_little_endian s = (Inl (OutOfBounds 4 (unat (remaining s))), s)) \<and>
   (remaining s < 8 \<longrightarrow>
      get_64_big_endian s = (Inl (OutOfBounds 8 (unat (remaining s))), s) \<and>
      get_64_little_endian s = (Inl (OutOfBounds 8 (unat (remaining s))), s))"
  by (simp add: skip_def get_buffer_def get_byte_def get_16_big_endian_def get_32_big_endian_def
        get_64_big_endian_def get_16_little_endian_def get_32_little_endian_def
        get_64_little_endian_def get_big_endian_def get_little_endian_def cast_result_def
        assert_is_available_def make_error_message_def)

theorem failed_read_reports_and_keeps_state_witness:
  "remaining (Deserializer_ctor []) < 1 \<and>
   remaining (Deserializer_ctor []) < 2 \<and>
   remaining (Deserializer_ctor []) < 4 \<and>
   remaining (Deserializer_ctor []) < 8 \<and>
   skip 1 (Deserializer_ctor []) = (Inl (OutOfBounds 1 0), Deserializer_ctor []) \<and>
   get_buffer 1 (Deserializer_ctor []) = (Inl (OutOfBounds 1 0), Deserializer_ctor []) \<and>
   get_byte (Deserializer_ctor []) = (Inl (OutOfBounds 1 0), Deserializer_ctor []) \<and>
   get_16_big_endian (Deserializer_ctor []) = (Inl (OutOfBounds 2 0), Deserializer_ctor []) \<and>
   get_16_little_endian (Deserializer_ctor []) = (Inl (OutOfBounds 2 0), Deserializer_ctor []) \<and>
   get_32_big_endian (Deserializer_ctor []) = (Inl (OutOfBounds 4 0), Deserializer_ctor []) \<and>
   get_32_little_endian (Deserializer_ctor []) = (Inl (OutOfBounds 4 0), Deserializer_ctor []) \<and>
   get_64_big_endian (Deserializer_ctor []) = (Inl (OutOfBounds 8 0), Deserializer_ctor []) \<and>
   get_64_little_endian (Deserializer_ctor []) = (Inl (OutOfBounds 8 0), Deserializer_ctor [])"
  using failed_read_reports_and_keeps_state [of "Deserializer_ctor []" 1]
  by (simp add: Deserializer_ctor_def)

text \<open>
  Claim C5, as the specification states it: a failing \<open>set_cursor\<close> would leave cursor and
  \<open>remaining\<close> as they were.  On a reader over three bytes that has skipped two (cursor 2,
  remaining 1), \<open>set_cursor(5)\<close> fails and leaves cursor 0 and remaining 3.
\<close>

theorem set_cursor_failure_changes_cursor:
  "get_buffer_size (snd (skip 2 (Deserializer_ctor [1, 2, 3]))) < 5 \<and>
   snd (skip 2 (Deserializer_ctor [1, 2, 3])) =
     \<lparr>buffer = [1, 2, 3], cursor = 2, buffer_size = 3, remaining = 1\<rparr> \<and>
   set_cursor 5 (snd (skip 2 (Deserializer_ctor [1, 2, 3]))) =
     (Inl (OutOfBounds 5 3), \<lparr>buffer = [1, 2, 3], cursor = 0, buffer_size = 3, remaining = 3\<rparr>) \<and>
   snd (set_cursor 5 (snd (skip 2 (Deserializer_ctor [1, 2, 3])))) \<noteq>
     snd (skip 2 (Deserializer_ctor [1, 2, 3]))"
  by (simp add: get_buffer_size_def set_cursor_def reset_cursor_def skip_def assert_is_available_def
        make_error_message_def update_remaining_def Deserializer_ctor_def)

text \<open>
  Claim C5, amended: in any state of the reader, \<open>set_cursor(position)\<close> with a position
  above the buffer size fails with the error that carries the position and the buffer
  size, and leaves the reader rewound as \<open>reset_cursor\<close> leaves it: cursor 0 and
  \<open>remaining\<close> equal to the buffer size.
\<close>

theorem set_cursor_failure_rewinds:
  "buffer_size s < position \<Longrightarrow>
   set_cursor position s =
     (Inl (OutOfBounds (unat position) (unat (buffer_size s))),
      s\<lparr>cursor := 0, remaining := buffer_size s\<rparr>)"
  by (auto simp: set_cursor_def reset_cursor_def skip_def assert_is_available_def
        make_error_message_def update_remaining_def)

theorem set_cursor_failure_rewinds_witness:
  "buffer_size (snd (skip 2 (Deserializer_ctor [1, 2, 3]))) < 5 \<and>
   set_cursor 5 (snd (skip 2 (Deserializer_ctor [1, 2, 3]))) =
     (Inl (OutOfBounds 5 3), \<lparr>buffer = [1, 2, 3], cursor = 0, buffer_size = 3, remaining = 3\<rparr>)"
  using set_cursor_failure_rewinds [of "snd (skip 2 (Deserializer_ctor [1, 2, 3]))" 5]
  by (simp add: skip_def assert_is_available_def update_remaining_def Deserializer_ctor_def)

text \<open>
  Claim C6.  In every state the writer reaches from either constructor by operations of
  its public interface, \<open>get_buffer\<close> returns, and a second \<open>get_buffer\<close> right after it
  returns the same bytes and leaves the same object.
\<close>

theorem get_buffer_twice:
  "\<exists>b s'. ser_get_buffer (writer_run ops (Serializer_new c)) = Inr (b, s') \<and>
          ser_get_buffer s' = Inr (b, s')"
  using ser_get_buffer_inv[OF writer_run_inv[OF Serializer_new_inv, of ops c]]
  by blast

theorem get_buffer_twice_witness:
  "ser_get_buffer (writer_run [Defer_buffer_size_32_big_endian, Push_byte (Int8 7)]
                     (Serializer_new None)) =
     Inr ([0, 0, 0, 5, 7],
          \<lparr>ser_buffer = [0, 0, 0, 5, 7],
           deferred_sizes = [\<lparr>index = 0, number_of_bytes = 4, endianness = BIG\<rparr>]\<rparr>) \<and>
   ser_get_buffer
     \<lparr>ser_buffer = [0, 0, 0, 5, 7],
      deferred_sizes = [\<lparr>index = 0, number_of_bytes = 4, endianness = BIG\<rparr>]\<rparr> =
     Inr ([0, 0, 0, 5, 7],
          \<lparr>ser_buffer = [0, 0, 0, 5, 7],
           deferred_sizes = [\<lparr>index = 0, number_of_bytes = 4, endianness = BIG\<rparr>]\<rparr>)"
  using get_buffer_twice [of "[Defer_buffer_size_32_big_endian, Push_byte (Int8 7)]" None]
  by (simp add: Serializer_new_def or_unchanged_def writer_defs loop_unroll)

text \<open>
  Claim C7.  Each checked push returns normally exactly when the size of the value's type
  is the width of the call; otherwise it throws the error that carries the width of the
  call and the size of the type, both in bits, and the object is unchanged.
  \<open>push_buffer\<close> has no error: it appends its argument, and the empty argument changes
  nothing.
\<close>

theorem checked_push_size_mismatch:
  "push_byte v s =
     (if sizeof v = 1 then Inr (push_little_endian v s) else Inl (SizeMismatch 8 (8 * sizeof v))) \<and>
   push_16_big_endian v s =
     (if sizeof v = 2 then Inr (push_big_endian v s) else Inl (SizeMismatch 16 (8 * sizeof v))) \<and>
   push_32_big_endian v s =
     (if sizeof v = 4 then Inr (push_big_endian v s) else Inl (SizeMismatch 32 (8 * sizeof v))) \<and>
   push_64_big_endian v s =
     (if sizeof v = 8 then Inr (push_big_endian v s) else Inl (SizeMismatch 64 (8 * sizeof v))) \<and>
   push_16_little_endian v s =
     (if sizeof v = 2 then Inr (push_little_endian v s) else Inl (SizeMismatch 16 (8 * sizeof v))) \<and>
   push_32_little_endian v s =
     (if sizeof v = 4 then Inr (push_little_endian v s) else Inl (SizeMismatch 32 (8 * sizeof v))) \<and>
   push_64_little_endian v s =
     (if sizeof v = 8 then Inr (push_little_endian v s) else Inl (SizeMismatch 64 (8 * sizeof v))) \<and>
   writer_step (Push_byte v) s = (if sizeof v = 1 then push_little_endian v s else s) \<and>
   writer_step (Push_16_big_endian v) s = (if sizeof v = 2 then push_big_endian v s else s) \<and>
   writer_step (Push_32_big_endian v) s = (if sizeof v = 4 then push_big_endian v s else s) \<and>
   writer_step (Push_64_big_endian v) s = (if sizeof v = 8 then push_big_endian v s else s) \<and>
   writer_step (Push_16_little_endian v) s = (if sizeof v = 2 then push_little_endian v s else s) \<and>
   writer_step (Push_32_little_endian v) s = (if sizeof v = 4 then push_little_endian v s else s) \<and>
   writer_step (Push_64_little_endian v) s = (if sizeof v = 8 then push_little_endian v s else s) \<and>
   push_buffer vs s = s\<lparr>ser_buffer := ser_buffer s @ vs\<rparr> \<and>
   push_buffer [] s = s"
  by (cases v)
     (simp_all add: push_16_big_endian_def push_32_big_endian_def push_64_big_endian_def
        push_16_little_endian_def push_32_little_endian_def push_64_little_endian_def
        push_byte_def check_size_def make_error_message_bits_def or_unchanged_def
        push_buffer_def)

theorem checked_push_size_mismatch_witness:
  "push_16_big_endian (Int32 5) Serializer_ctor = Inl (SizeMismatch 16 32) \<and>
   writer_step (Push_16_big_endian (Int32 5)) Serializer_ctor = Serializer_ctor \<and>
   push_32_big_endian (Int32 5) Serializer_ctor =
     Inr \<lparr>ser_buffer = [0, 0, 0, 5], deferred_sizes = []\<rparr> \<and>
   push_buffer [] Serializer_ctor = Serializer_ctor"
  using checked_push_size_mismatch [of "Int32 5" Serializer_ctor "[]"]
  by (simp add: push_big_endian_def loop_unroll Serializer_ctor_def or_unchanged_def)

text \<open>
  Claim C8.  In every state the reader reaches from its constructor by operations of its
  public interface (whether they return or throw), the recorded size does not exceed the
  vector, \<open>0 \<le> cursor \<le> buffer_size\<close> and \<open>remaining = buffer_size - cursor\<close>; and every
  single operation started in a state with these properties ends in one.
\<close>

theorem reader_invariants:
  "Deserializer_inv (reader_run ops (Deserializer_ctor buf)) \<and>
   (Deserializer_inv s \<longrightarrow> Deserializer_inv (reader_step x s))"
  by (simp add: reader_run_inv inv_ctor reader_step_inv)

theorem reader_invariants_witness:
  "Deserializer_inv (Deserializer_ctor [1, 2, 3]) \<and>
   reader_step (Skip 2) (Deserializer_ctor [1, 2, 3]) =
     \<lparr>buffer = [1, 2, 3], cursor = 2, buffer_size = 3, remaining = 1\<rparr> \<and>
   Deserializer_inv (reader_step (Skip 2) (Deserializer_ctor [1, 2, 3])) \<and>
   Deserializer_inv (reader_run [Skip 2, Get_byte] (Deserializer_ctor [1, 2, 3]))"
  using reader_invariants [of "[Skip 2, Get_byte]" "[1, 2, 3]" "Deserializer_ctor [1, 2, 3]" "Skip 2"]
  by (simp add: skip_def assert_is_available_def update_remaining_def Deserializer_ctor_def
        Deserializer_inv_def)

text \<open>
  Claim C9.  In every state the reader reaches from its constructor, also with nothing
  remaining, \<open>get_buffer(0)\<close> returns the empty sequence and leaves the object, so cursor
  and \<open>remaining\<close>, as it was.
\<close>

theorem get_buffer_zero_is_noop:
  "get_buffer 0 (reader_run ops (Deserializer_ctor buf)) =
     (Inr [], reader_run ops (Deserializer_ctor buf))"
  by (simp add: get_buffer_zero reader_run_inv inv_ctor)

theorem get_buffer_zero_is_noop_witness:
  "get_buffer 0 (reader_run [Skip 3] (Deserializer_ctor [1, 2, 3])) =
     (Inr [], \<lparr>buffer = [1, 2, 3], cursor = 3, buffer_size = 3, remaining = 0\<rparr>)"
  using get_buffer_zero_is_noop [of "[Skip 3]" "[1, 2, 3]"]
  by (simp add: skip_def assert_is_available_def update_remaining_def Deserializer_ctor_def)

text \<open>
  Claim C10.  In every state the writer reaches from either constructor by operations of
  its public interface, every deferred size has \<open>number_of_bytes = 4\<close> and
  \<open>endianness = BIG\<close>.  The patching of \<open>insert_buffer_sizes\<close> does not depend on the
  \<open>endianness\<close> fields: with any other values in them it produces the same buffer.  And after
  \<open>get_buffer\<close>, the four bytes at the \<open>index\<close> of every deferred size are the big-endian
  encoding of the length of the buffer.
\<close>

theorem deferred_sizes_are_32_bit_big_endian:
  "(\<forall>d \<in> set (deferred_sizes (writer_run ops (Serializer_new c))).
      number_of_bytes d = 4 \<and> endianness d = BIG) \<and>
   map_sum id ser_buffer
     (insert_buffer_sizes (s\<lparr>deferred_sizes := map (\<lambda>d. d\<lparr>endianness := e d\<rparr>) (deferred_sizes s)\<rparr>)) =
   map_sum id ser_buffer (insert_buffer_sizes s) \<and>
   (\<exists>b s'. ser_get_buffer (writer_run ops (Serializer_new c)) = Inr (b, s') \<and>
      (\<forall>d \<in> set (deferred_sizes s').
         take 4 (drop (index d) b) = big_endian_encoding 4 (length b)))"
proof -
  let ?s = "writer_run ops (Serializer_new c)"
  have inv: "Serializer_inv ?s" by (rule writer_run_inv[OF Serializer_new_inv])
  then have ok: "patches_ok 0 (deferred_sizes ?s) (length (ser_buffer ?s))"
    by (simp add: Serializer_inv_def)
  have a: "\<forall>d \<in> set (deferred_sizes ?s). number_of_bytes d = 4 \<and> endianness d = BIG"
    using patches_ok_fields[OF ok] by blast
  have b: "map_sum id ser_buffer
     (insert_buffer_sizes (s\<lparr>deferred_sizes := map (\<lambda>d. d\<lparr>endianness := e d\<rparr>) (deferred_sizes s)\<rparr>)) =
     map_sum id ser_buffer (insert_buffer_sizes s)"
    by (simp add: insert_buffer_sizes_def insert_sizes_loop_ignores_endianness split: sum.splits)
  from ser_get_buffer_inv[OF inv] obtain buf where
    g: "ser_get_buffer ?s = Inr (buf, ?s\<lparr>ser_buffer := buf\<rparr>)"
    and p: "\<forall>d \<in> set (deferred_sizes ?s). take 4 (drop (index d) buf) = big_endian_encoding 4 (length buf)"
    by blast
  have "\<exists>b s'. ser_get_buffer ?s = Inr (b, s') \<and>
      (\<forall>d \<in> set (deferred_sizes s').
         take 4 (drop (index d) b) = big_endian_encoding 4 (length b))"
    using g p by (intro exI[of _ buf] exI[of _ "?s\<lparr>ser_buffer := buf\<rparr>"]) simp
  with a b show ?thesis by blast
qed

theorem deferred_sizes_are_32_bit_big_endian_witness:
  "deferred_sizes (writer_run [Push_byte (Int8 1), Defer_buffer_size_32_big_endian, Push_byte (Int8 2)]
                     (Serializer_new None)) =
     [\<lparr>index = 1, number_of_bytes = 4, endianness = BIG\<rparr>] \<and>
   ser_get_buffer (writer_run [Push_byte (Int8 1), Defer_buffer_size_32_big_endian, Push_byte (Int8 2)]
                     (Serializer_new None)) =
     Inr ([1, 0, 0, 0, 6, 2],
          \<lparr>ser_buffer = [1, 0, 0, 0, 6, 2],
           deferred_sizes = [\<lparr>index = 1, number_of_bytes = 4, endianness = BIG\<rparr>]\<rparr>) \<and>
   big_endian_encoding 4 6 = [0, 0, 0, 6] \<and>
   map_sum id ser_buffer
     (insert_buffer_sizes
        \<lparr>ser_buffer = [1, 0, 0, 0, 0, 2],
         deferred_sizes = [\<lparr>index = 1, number_of_bytes = 4, endianness = LITTLE\<rparr>]\<rparr>) =
     Inr [1, 0, 0, 0, 6, 2]"
  using deferred_sizes_are_32_bit_big_endian
          [where ops = "[Push_byte (Int8 1), Defer_buffer_size_32_big_endian, Push_byte (Int8 2)]"
             and c = None
             and s = "\<lparr>ser_buffer = [1, 0, 0, 0, 0, 2],
                      deferred_sizes = [\<lparr>index = 1, number_of_bytes = 4, endianness = BIG\<rparr>]\<rparr>"
             and e = "\<lambda>d. LITTLE"]
  by (simp add: Serializer_new_def or_unchanged_def writer_defs loop_unroll
        big_endian_encoding_def upt_0_4)

end
